theory Spec2Isabelle
  imports Main "HOL-Library.Sublist" "HOL-Library.AList" "HOL-Library.Word"
begin

section \<open>The file organiser \<open>fileOrg.py\<close>\<close>

text \<open>
  The script watches a directory, moves every file whose name starts with a registered
  prefix into the directory of that prefix, and optionally records a digest of the moved
  file in a ledger. The embedding follows the script: the module globals are the fields
  of one record, every statement that can raise returns an error value, and the polling
  loop consumes one observation of the settings resource per iteration.

  The library calls are modelled by their documented behaviour on a single POSIX device.
  A path string names an object of the file system through the resolution the kernel
  performs (working directory, \<open>.\<close> and \<open>..\<close>, repeated separators, links). That resolution
  is the field \<open>realpath\<close> of the state, a parameter that the script never changes; files
  and directories are keyed by resolved paths, so that two spellings of one path name one
  object. Console output and the two \<open>time.sleep\<close> calls are not modelled.
\<close>

subsection \<open>Strings and paths\<close>

type_synonym bytes = "8 word list"

text \<open>\<open>str.startswith\<close>.\<close>

definition startswith :: "string \<Rightarrow> string \<Rightarrow> bool" where
  "startswith s p = prefix p s"

text \<open>
  \<open>str.replace(old, new)\<close>: the occurrences of \<open>old\<close> are replaced from the left, without
  overlap. With an empty \<open>old\<close> Python puts \<open>new\<close> before every character and at the end.
\<close>

function replace :: "string \<Rightarrow> string \<Rightarrow> string \<Rightarrow> string" where
  "replace [] old new = (if old = [] then new else [])"
| "replace (c # cs) old new =
     (if old = [] then new @ c # replace cs old new
      else if prefix old (c # cs) then new @ replace (drop (length old) (c # cs)) old new
      else c # replace cs old new)"
  by pat_completeness auto
termination
  by (relation "measure (\<lambda>(s, old, new). length s)") (auto simp: neq_Nil_conv)

text \<open>\<open>os.path.join\<close> of two components (posixpath).\<close>

definition join :: "string \<Rightarrow> string \<Rightarrow> string" where
  "join a b =
     (if startswith b ''/'' then b
      else if a = [] \<or> last a = CHR ''/'' then a @ b
      else a @ ''/'' @ b)"

text \<open>\<open>os.path.basename\<close>: what follows the last separator.\<close>

definition basename :: "string \<Rightarrow> string" where
  "basename p = rev (takeWhile (\<lambda>c. c \<noteq> CHR ''/'') (rev p))"

text \<open>\<open>os.path.dirname\<close>: what precedes the last separator, without trailing separators
  unless it consists of separators only.\<close>

definition dirname :: "string \<Rightarrow> string" where
  "dirname p =
     (let h = rev (dropWhile (\<lambda>c. c \<noteq> CHR ''/'') (rev p));
          t = rev (dropWhile (\<lambda>c. c = CHR ''/'') (rev h))
      in if t = [] then h else t)"

text \<open>A path with its trailing separators removed, as the kernel resolves a directory.\<close>

definition rstrip_sep :: "string \<Rightarrow> string" where
  "rstrip_sep p =
     (let t = rev (dropWhile (\<lambda>c. c = CHR ''/'') (rev p))
      in if t = [] \<and> p \<noteq> [] then ''/'' else t)"

text \<open>A name that an entry of a directory can bear.\<close>

definition plain :: "string \<Rightarrow> bool" where
  "plain n = (n \<noteq> [] \<and> CHR ''/'' \<notin> set n \<and> n \<noteq> ''.'' \<and> n \<noteq> ''..'')"

subsection \<open>Errors\<close>

datatype error =
    NoOptionError string
  | ParsingError
  | FileNotFoundError string
  | IsADirectoryError string
  | NotADirectoryError string
  | ShutilError string

datatype outcome = Returned | Raised error

subsection \<open>The digest library\<close>

text \<open>
  \<open>hashlib\<close> is not part of the repository: the four digest functions, each from the bytes
  fed to the hexadecimal string, are a parameter of the model. A hash object holds its
  algorithm and the bytes fed so far; \<open>update\<close> appends, so that feeding chunks is feeding
  their concatenation, as the library documents.
\<close>

datatype algorithm = MD5 | SHA1 | SHA256 | SHA224

record hashlib =
  md5 :: "bytes \<Rightarrow> string"
  sha1 :: "bytes \<Rightarrow> string"
  sha256 :: "bytes \<Rightarrow> string"
  sha224 :: "bytes \<Rightarrow> string"

type_synonym hash_object = "algorithm \<times> bytes"

definition new_hash :: "algorithm \<Rightarrow> hash_object" where
  "new_hash a = (a, [])"

definition update :: "hash_object \<Rightarrow> bytes \<Rightarrow> hash_object" where
  "update h chunk = (fst h, snd h @ chunk)"

fun digest_of :: "hashlib \<Rightarrow> algorithm \<Rightarrow> bytes \<Rightarrow> string" where
  "digest_of H MD5 bs = md5 H bs"
| "digest_of H SHA1 bs = sha1 H bs"
| "digest_of H SHA256 bs = sha256 H bs"
| "digest_of H SHA224 bs = sha224 H bs"

definition hexdigest :: "hashlib \<Rightarrow> hash_object \<Rightarrow> string" where
  "hexdigest H h = digest_of H (fst h) (snd h)"

subsection \<open>The resources and the module globals\<close>

text \<open>
  \<open>config.ini\<close>, when it parses, is its section \<open>settings\<close>: a map from option names to
  values. The ledger \<open>fileHashes.json\<close> is an ordinary file of the working directory: its
  bytes are in \<open>files\<close>, under the resolved path of that name. The field \<open>fileHashes_json\<close>
  keeps, as a value, what the process last left there: nothing, the empty file of
  \<open>open(..., 'a').close()\<close>, or the dictionary it dumped, in insertion order.
\<close>

datatype ini = Malformed | Settings "string \<rightharpoonup> string"

datatype ledger_file = LedgerAbsent | LedgerEmpty | LedgerJson "(string \<times> string) list"

record state =
  realpath :: "string \<Rightarrow> string"
  dirs :: "string list"
  files :: "(string \<times> bytes) list"
  config_ini :: "ini option"
  filePaths_json :: "string list option"
  fileHashes_json :: ledger_file
  parser :: "string \<rightharpoonup> string"
  currentPath :: string
  path :: "string list"
  hashStore :: "(string \<times> string) list"
  isRunning :: bool
  getHashes :: bool
  hashCode :: string
  hash_global :: hash_object

subsection \<open>The file system calls\<close>

text \<open>Every call resolves the path it is given before it looks at the file system.\<close>

definition isdir :: "state \<Rightarrow> string \<Rightarrow> bool" where
  "isdir st p = (p \<noteq> [] \<and> rstrip_sep (realpath st p) \<in> set (dirs st))"

definition isfile :: "state \<Rightarrow> string \<Rightarrow> bool" where
  "isfile st p = (map_of (files st) (realpath st p) \<noteq> None)"

definition exists_path :: "state \<Rightarrow> string \<Rightarrow> bool" where
  "exists_path st p = (isdir st p \<or> isfile st p)"

text \<open>
  The name of the resolved path \<open>p\<close> as an entry directly inside the directory with
  resolved path \<open>d\<close>, if it is one.
\<close>

definition child :: "string \<Rightarrow> string \<Rightarrow> string option" where
  "child d p =
     (let pre = join d [] in
      if prefix pre p \<and> plain (drop (length pre) p)
      then Some (drop (length pre) p) else None)"

text \<open>
  \<open>os.listdir\<close>: the regular files and the subdirectories directly inside \<open>d\<close>, without the
  special entries \<open>.\<close> and \<open>..\<close>.
\<close>

definition listdir :: "state \<Rightarrow> string \<Rightarrow> error + string list" where
  "listdir st d =
     (if isdir st d
      then Inr (List.map_filter (child (realpath st d)) (map fst (files st) @ dirs st))
      else if isfile st d then Inl (NotADirectoryError d)
      else Inl (FileNotFoundError d))"

text \<open>\<open>open(fname, "rb")\<close> followed by reading: the bytes of a regular file.\<close>

definition open_rb :: "state \<Rightarrow> string \<Rightarrow> error + bytes" where
  "open_rb st p =
     (case map_of (files st) (realpath st p) of
        Some bs \<Rightarrow> Inr bs
      | None \<Rightarrow> if isdir st p then Inl (IsADirectoryError p) else Inl (FileNotFoundError p))"

text \<open>
  \<open>os.rename\<close> of a regular file: the source must exist; the target must not be a directory,
  so its last component is neither empty nor \<open>.\<close> nor \<open>..\<close>, and must lie in an existing
  directory; an existing regular file at the target is replaced, and nothing happens when
  source and target are the same file.
\<close>

definition rename :: "state \<Rightarrow> string \<Rightarrow> string \<Rightarrow> error + state" where
  "rename st src dst =
     (case map_of (files st) (realpath st src) of
        None \<Rightarrow> Inl (FileNotFoundError src)
      | Some bs \<Rightarrow>
          if isdir st dst then Inl (IsADirectoryError dst)
          else if \<not> plain (basename dst) then Inl (NotADirectoryError dst)
          else if dirname dst \<noteq> [] \<and> \<not> isdir st (dirname dst) then Inl (FileNotFoundError dst)
          else if realpath st src = realpath st dst then Inr st
          else Inr (st\<lparr>files := AList.update (realpath st dst) bs
                              (AList.delete (realpath st src) (files st))\<rparr>))"

text \<open>
  \<open>shutil.move\<close>: a destination that is a directory receives the file under the source's
  base name, unless that name is taken; otherwise the file is renamed to the destination.
\<close>

definition shutil_move :: "state \<Rightarrow> string \<Rightarrow> string \<Rightarrow> error + state" where
  "shutil_move st src dst =
     (if isdir st dst then
        let real_dst = join dst (basename src) in
        if exists_path st real_dst then Inl (ShutilError real_dst)
        else rename st src real_dst
      else rename st src dst)"

text \<open>\<open>os.makedirs\<close>: the directory and every missing ancestor.\<close>

definition ancestors :: "string \<Rightarrow> string list" where
  "ancestors p = [take i p. i \<leftarrow> [1..<length p], p ! i = CHR ''/'' \<and> p ! (i - 1) \<noteq> CHR ''/''] @ [p]"

definition makedirs :: "state \<Rightarrow> string \<Rightarrow> error + state" where
  "makedirs st p =
     (let ds = ancestors (rstrip_sep (realpath st p)) in
      if p = [] then Inl (FileNotFoundError p)
      else if list_ex (\<lambda>a. map_of (files st) a \<noteq> None) ds then Inl (NotADirectoryError p)
      else Inr (st\<lparr>dirs := dirs st @ filter (\<lambda>a. a \<notin> set (dirs st)) (remdups ds)\<rparr>))"

subsection \<open>\<open>hashFile\<close>\<close>

text \<open>\<open>iter(lambda: f.read(4096), b"")\<close>: the chunks read until the empty one.\<close>

function read_chunks :: "bytes \<Rightarrow> bytes list" where
  "read_chunks [] = []"
| "read_chunks (b # bs) = take 4096 (b # bs) # read_chunks (drop 4096 (b # bs))"
  by pat_completeness auto
termination
  by (relation "measure length") auto

definition select_hash :: "string \<Rightarrow> hash_object" where
  "select_hash code =
     (if code = ''MD5'' then new_hash MD5
      else if code = ''SHA-1'' then new_hash SHA1
      else if code = ''SHA-256'' then new_hash SHA256
      else if code = ''SHA-224'' then new_hash SHA224
      else new_hash MD5)"

definition hashFile :: "hashlib \<Rightarrow> state \<Rightarrow> string \<Rightarrow> error + string" where
  "hashFile H st fname =
     (let h = select_hash (hashCode st) in
      case open_rb st fname of
        Inl e \<Rightarrow> Inl e
      | Inr bs \<Rightarrow> Inr (hexdigest H (foldl update h (read_chunks bs))))"

subsection \<open>\<open>main\<close>: one pass over the watched directory\<close>

text \<open>
  \<open>json.dump(d, outfile, ensure_ascii=False, indent=4)\<close> into a file opened with the
  encoding UTF-8, for a dictionary from strings to strings: one item per line, indented
  by four spaces; in a string the quote, the backslash and the control characters are
  escaped, every other character is written as it is.
\<close>

definition hex_digit :: "nat \<Rightarrow> char" where
  "hex_digit n = ''0123456789abcdef'' ! (n mod 16)"

definition json_escape :: "char \<Rightarrow> string" where
  "json_escape c =
     (if c = CHR 0x22 then [CHR 0x5C, CHR 0x22]
      else if c = CHR 0x5C then [CHR 0x5C, CHR 0x5C]
      else if c = CHR 0x0A then [CHR 0x5C, CHR ''n'']
      else if c = CHR 0x0D then [CHR 0x5C, CHR ''r'']
      else if c = CHR 0x09 then [CHR 0x5C, CHR ''t'']
      else if c = CHR 0x08 then [CHR 0x5C, CHR ''b'']
      else if c = CHR 0x0C then [CHR 0x5C, CHR ''f'']
      else if (of_char c :: nat) < 32
        then [CHR 0x5C, CHR ''u'', CHR ''0'', CHR ''0'',
              hex_digit (of_char c div 16), hex_digit (of_char c)]
      else [c])"

definition json_string :: "string \<Rightarrow> string" where
  "json_string s = CHR 0x22 # concat (map json_escape s) @ [CHR 0x22]"

fun json_items :: "(string \<times> string) list \<Rightarrow> string" where
  "json_items [] = []"
| "json_items [(k, v)] = ''    '' @ json_string k @ '': '' @ json_string v"
| "json_items ((k, v) # kv # rest) =
     ''    '' @ json_string k @ '': '' @ json_string v @ '','' @ [CHR 0x0A] @ json_items (kv # rest)"

definition json_dump :: "(string \<times> string) list \<Rightarrow> bytes" where
  "json_dump d =
     map (\<lambda>c. of_nat (of_char c))
       (if d = [] then [CHR 0x7B, CHR 0x7D]
        else [CHR 0x7B, CHR 0x0A] @ json_items d @ [CHR 0x0A, CHR 0x7D])"

text \<open>\<open>open("fileHashes.json", 'a').close()\<close> where no such file exists: an empty file.\<close>

definition touch_ledger :: "state \<Rightarrow> state" where
  "touch_ledger st =
     st\<lparr>files := AList.update (realpath st ''fileHashes.json'') [] (files st),
        fileHashes_json := LedgerEmpty\<rparr>"

text \<open>
  \<open>hashStore.update(...)\<close> followed by \<open>json.dump(hashStore, ...)\<close> on the ledger file opened
  for writing: an existing key keeps its place and takes the new value, a new key goes
  last, and the file holds the whole dictionary.
\<close>

definition ledger_record :: "string \<Rightarrow> string \<Rightarrow> string \<Rightarrow> state \<Rightarrow> state" where
  "ledger_record b dest_name hx st =
     (let st' = st\<lparr>hashStore := AList.update (b @ '' | '' @ dest_name) hx (hashStore st)\<rparr>
      in st'\<lparr>fileHashes_json := LedgerJson (hashStore st'),
             files := AList.update (realpath st ''fileHashes.json'') (json_dump (hashStore st'))
                        (files st)\<rparr>)"

text \<open>
  The body of \<open>if file.startswith(b)\<close>. Opening the ledger for writing raises when a
  directory bears its name; the dictionary has been updated by then.
\<close>

definition move_and_record :: "hashlib \<Rightarrow> string \<Rightarrow> string \<Rightarrow> state \<Rightarrow> outcome \<times> state" where
  "move_and_record H file b st =
     (let src = join (currentPath st) file;
          dest_name = replace file (b @ '' '') [];
          dest = join b dest_name
      in case shutil_move st src dest of
           Inl e \<Rightarrow> (Raised e, st)
         | Inr st1 \<Rightarrow>
             if getHashes st1 then
               let st2 = (if exists_path st1 ''fileHashes.json'' then st1 else touch_ledger st1)
               in case hashFile H st2 dest of
                    Inl e \<Rightarrow> (Raised e, st2)
                  | Inr hx \<Rightarrow>
                      if isdir st2 ''fileHashes.json''
                      then (Raised (IsADirectoryError ''fileHashes.json''),
                            st2\<lparr>hashStore :=
                                   AList.update (b @ '' | '' @ dest_name) hx (hashStore st2)\<rparr>)
                      else (Returned, ledger_record b dest_name hx st2)
             else (Returned, st1))"

text \<open>\<open>for b in path\<close>, for one file. The loop has no \<open>break\<close>.\<close>

fun match_prefixes :: "hashlib \<Rightarrow> string \<Rightarrow> string list \<Rightarrow> state \<Rightarrow> outcome \<times> state" where
  "match_prefixes H file [] st = (Returned, st)"
| "match_prefixes H file (b # bs) st =
     (if startswith file b then
        (case move_and_record H file b st of
           (Raised e, st') \<Rightarrow> (Raised e, st')
         | (Returned, st') \<Rightarrow> match_prefixes H file bs st')
      else match_prefixes H file bs st)"

text \<open>\<open>for file in onlyfiles\<close>.\<close>

fun main_files :: "hashlib \<Rightarrow> string list \<Rightarrow> state \<Rightarrow> outcome \<times> state" where
  "main_files H [] st = (Returned, st)"
| "main_files H (file # rest) st =
     (case match_prefixes H file (path st) st of
        (Raised e, st') \<Rightarrow> (Raised e, st')
      | (Returned, st') \<Rightarrow> main_files H rest st')"

definition onlyfiles :: "state \<Rightarrow> error + string list" where
  "onlyfiles st =
     (case listdir st (currentPath st) of
        Inl e \<Rightarrow> Inl e
      | Inr names \<Rightarrow> Inr (filter (\<lambda>f. isfile st (join (currentPath st) f)) names))"

definition main :: "hashlib \<Rightarrow> state \<Rightarrow> outcome \<times> state" where
  "main H st =
     (case onlyfiles st of
        Inl e \<Rightarrow> (Raised e, st)
      | Inr fs \<Rightarrow> main_files H fs st)"

subsection \<open>The settings resource\<close>

text \<open>
  \<open>parser.read('config.ini')\<close> merges the options of the file into the parser and skips a
  file that is absent; \<open>parser.get\<close> raises on an option the parser does not hold.
\<close>

definition parser_read :: "state \<Rightarrow> error + state" where
  "parser_read st =
     (case config_ini st of
        None \<Rightarrow> Inr st
      | Some Malformed \<Rightarrow> Inl ParsingError
      | Some (Settings m) \<Rightarrow> Inr (st\<lparr>parser := parser st ++ m\<rparr>))"

definition parser_get :: "state \<Rightarrow> string \<Rightarrow> error + string" where
  "parser_get st k = (case parser st k of None \<Rightarrow> Inl (NoOptionError k) | Some v \<Rightarrow> Inr v)"

definition default_settings :: "string \<rightharpoonup> string" where
  "default_settings =
     [''isRunning'' \<mapsto> ''true'', ''getHashes'' \<mapsto> ''true'',
      ''hashMethod'' \<mapsto> ''MD5'', ''currentPathName'' \<mapsto> ''Images'']"

subsection \<open>The polling loop\<close>

text \<open>
  What the outside world did before an iteration reads the settings: the settings resource
  as it then is, and the files deposited since the previous iteration.
\<close>

type_synonym observation = "ini option \<times> (string \<times> bytes) list"

definition observe :: "observation \<Rightarrow> state \<Rightarrow> state" where
  "observe ob st =
     st\<lparr>config_ini := fst ob,
        files := foldl (\<lambda>fs (p, bs). AList.update (realpath st p) bs fs) (files st) (snd ob)\<rparr>"

datatype exit = Stopped | StillRunning | Crashed error

text \<open>The body of \<open>while isRunning\<close>: reload the running flag, then call \<open>main\<close>.\<close>

definition cycle :: "hashlib \<Rightarrow> state \<Rightarrow> outcome \<times> state" where
  "cycle H st =
     (case parser_read st of
        Inl e \<Rightarrow> (Raised e, st)
      | Inr st1 \<Rightarrow>
          (case parser_get st1 ''isRunning'' of
             Inl e \<Rightarrow> (Raised e, st1)
           | Inr v \<Rightarrow> main H (st1\<lparr>isRunning := (v = ''true'')\<rparr>)))"

text \<open>
  The loop runs one iteration per observation. When the observations are used up while the
  flag is still set, the process is still running.
\<close>

fun run_loop :: "hashlib \<Rightarrow> observation list \<Rightarrow> state \<Rightarrow> exit \<times> state" where
  "run_loop H [] st = (if isRunning st then (StillRunning, st) else (Stopped, st))"
| "run_loop H (ob # obs) st =
     (if isRunning st then
        (case cycle H (observe ob st) of
           (Raised e, st') \<Rightarrow> (Crashed e, st')
         | (Returned, st') \<Rightarrow> run_loop H obs st')
      else (Stopped, st))"

subsection \<open>The script\<close>

text \<open>The module globals as the script initialises them, over the resources found.\<close>

definition init_globals :: "state \<Rightarrow> state" where
  "init_globals st =
     st\<lparr>parser := Map.empty, currentPath := ''Images'', path := [], hashStore := [],
        isRunning := False, getHashes := False, hashCode := ''MD5''\<rparr>"

definition bootstrap :: "state \<Rightarrow> state" where
  "bootstrap st =
     (let st1 = (if config_ini st = None
                 then st\<lparr>parser := default_settings, config_ini := Some (Settings default_settings)\<rparr>
                 else st)
      in if filePaths_json st1 = None then st1\<lparr>filePaths_json := Some [''empty'']\<rparr> else st1)"

definition read_settings :: "state \<Rightarrow> error + state" where
  "read_settings st =
     (case parser_read st of
        Inl e \<Rightarrow> Inl e
      | Inr st1 \<Rightarrow>
     (case parser_get st1 ''currentPathName'' of
        Inl e \<Rightarrow> Inl e
      | Inr cp \<Rightarrow>
     (case parser_get st1 ''hashMethod'' of
        Inl e \<Rightarrow> Inl e
      | Inr hm \<Rightarrow>
     (case parser_get st1 ''getHashes'' of
        Inl e \<Rightarrow> Inl e
      | Inr gh \<Rightarrow>
     (case parser_get st1 ''isRunning'' of
        Inl e \<Rightarrow> Inl e
      | Inr ir \<Rightarrow>
          Inr (st1\<lparr>currentPath := cp, hashCode := hm, getHashes := (gh = ''true''),
                   isRunning := (ir = ''true''),
                   hash_global :=
                     (if hm = ''SHA-1'' then new_hash SHA1
                      else if hm = ''SHA-256'' then new_hash SHA256
                      else if hm = ''SHA-224'' then new_hash SHA224
                      else new_hash MD5)\<rparr>))))))"

text \<open>\<open>for a in path: if not os.path.exists(a): os.makedirs(a)\<close>.\<close>

fun ensure_dirs :: "string list \<Rightarrow> state \<Rightarrow> error + state" where
  "ensure_dirs [] st = Inr st"
| "ensure_dirs (a # as) st =
     (if exists_path st a then ensure_dirs as st
      else case makedirs st a of Inl e \<Rightarrow> Inl e | Inr st' \<Rightarrow> ensure_dirs as st')"

text \<open>The block under \<open>if isRunning\<close>, up to the loop.\<close>

definition prepare :: "state \<Rightarrow> error + state" where
  "prepare st =
     (case filePaths_json st of
        None \<Rightarrow> Inl (FileNotFoundError ''filePaths.json'')
      | Some pathData \<Rightarrow>
          let st1 = st\<lparr>path := path st @ pathData\<rparr> in
          (case ensure_dirs (path st1) st1 of
             Inl e \<Rightarrow> Inl e
           | Inr st2 \<Rightarrow>
               if exists_path st2 (currentPath st2) then Inr st2
               else makedirs st2 (currentPath st2)))"

definition program :: "hashlib \<Rightarrow> observation list \<Rightarrow> state \<Rightarrow> exit \<times> state" where
  "program H obs world =
     (let st = bootstrap (init_globals world) in
      case read_settings st of
        Inl e \<Rightarrow> (Crashed e, st)
      | Inr st1 \<Rightarrow>
          if isRunning st1 then
            (case prepare st1 of
               Inl e \<Rightarrow> (Crashed e, st1)
             | Inr st2 \<Rightarrow> run_loop H obs st2)
          else (Stopped, st1))"

subsection \<open>Sample inputs\<close>

text \<open>
  Concrete inputs on which the theorems below are instantiated. The sample digest library
  only tags the bytes with the name of the algorithm.
\<close>

definition sample_hashlib :: hashlib where
  "sample_hashlib =
     \<lparr>md5 = (\<lambda>bs. ''md5:'' @ map (\<lambda>b. char_of (unat b)) bs),
      sha1 = (\<lambda>bs. ''sha1:'' @ map (\<lambda>b. char_of (unat b)) bs),
      sha256 = (\<lambda>bs. ''sha256:'' @ map (\<lambda>b. char_of (unat b)) bs),
      sha224 = (\<lambda>bs. ''sha224:'' @ map (\<lambda>b. char_of (unat b)) bs)\<rparr>"

text \<open>The running process after a default start-up, with prefix \<open>foo\<close> and two files waiting.\<close>

definition demo_state :: state where
  "demo_state =
     \<lparr>realpath = (\<lambda>p. p), dirs = [''Images'', ''foo''],
      files = [(''Images/foo bar.png'', [1, 2, 3]), (''Images/notes.txt'', [9])],
      config_ini = Some (Settings default_settings), filePaths_json = Some [''foo''],
      fileHashes_json = LedgerAbsent, parser = default_settings, currentPath = ''Images'',
      path = [''foo''], hashStore = [], isRunning = True, getHashes = True,
      hashCode = ''MD5'', hash_global = new_hash MD5\<rparr>"

text \<open>Two registered prefixes, one a prefix of the other, and a file that starts with both.\<close>

definition overlap_state :: state where
  "overlap_state =
     demo_state\<lparr>dirs := [''Images'', ''img'', ''img2''],
        files := [(''Images/img2 cat.png'', [1, 2, 3])],
        path := [''img'', ''img2''], getHashes := False\<rparr>"

text \<open>A file whose name repeats the prefix and the space after it.\<close>

definition repeat_state :: state where
  "repeat_state = demo_state\<lparr>files := [(''Images/foo foo bar'', [1, 2, 3])], getHashes := False\<rparr>"

text \<open>The watched directory registered as a prefix of its own.\<close>

definition alias_state :: state where
  "alias_state =
     demo_state\<lparr>dirs := [''Images''],
        files := [(''Images/Images x.png'', [1, 2, 3]), (''Images/x.png'', [9])],
        path := [''Images''], getHashes := False\<rparr>"

text \<open>Settings resources as an editor may leave them.\<close>

definition stop_settings :: "string \<rightharpoonup> string" where
  "stop_settings = default_settings(''isRunning'' \<mapsto> ''false'')"

definition edited_settings :: "string \<rightharpoonup> string" where
  "edited_settings =
     default_settings(''getHashes'' \<mapsto> ''false'', ''hashMethod'' \<mapsto> ''SHA-256'',
       ''currentPathName'' \<mapsto> ''Inbox'')"

text \<open>What the script finds on disk: only the resources and the file system matter.\<close>

definition demo_world :: state where
  "demo_world = demo_state\<lparr>parser := Map.empty, path := [], isRunning := False, getHashes := False\<rparr>"

definition stopped_world :: state where
  "stopped_world =
     demo_world\<lparr>config_ini := Some (Settings stop_settings), filePaths_json := None,
       dirs := []\<rparr>"

text \<open>Observations: the flag turned off, other settings edited, a file arriving late.\<close>

definition plain_observation :: observation where
  "plain_observation = (Some (Settings default_settings), [])"

definition stop_observation :: observation where
  "stop_observation = (Some (Settings stop_settings), [])"

definition edit_observation :: observation where
  "edit_observation = (Some (Settings edited_settings), [])"

definition late_observation :: observation where
  "late_observation = (Some (Settings default_settings), [(''Images/foo late.txt'', [7])])"



text \<open>
  A resolution under which \<open>.\<close> is the working directory, whose resolved path is empty, and
  a leading \<open>./\<close> changes nothing.
\<close>

definition dot_realpath :: "string \<Rightarrow> string" where
  "dot_realpath p = (if p = ''.'' then [] else if prefix ''./'' p then drop 2 p else p)"

text \<open>The watched directory spelled \<open>./Images\<close>, and registered as the prefix \<open>Images\<close>.\<close>

definition dot_state :: state where
  "dot_state = alias_state\<lparr>realpath := dot_realpath, currentPath := ''./Images''\<rparr>"

text \<open>The working directory watched, with the ledger of an earlier run in it.\<close>

definition cwd_state :: state where
  "cwd_state =
     demo_state\<lparr>realpath := dot_realpath, dirs := [[], ''foo''],
        files := [(''fileHashes.json'', [0]), (''foo bar.png'', [1, 2, 3])],
        currentPath := ''.''\<rparr>"

text \<open>
  The globals, the directories and the resolution of paths, which a pass over the watched
  directory never assigns.
\<close>

definition globals ::
  "state \<Rightarrow> (string \<Rightarrow> string) \<times> string list \<times> string \<times> string list \<times> bool \<times> bool \<times> string" where
  "globals st =
     (realpath st, dirs st, currentPath st, path st, isRunning st, getHashes st, hashCode st)"

text \<open>
  Resolution goes through the directories: the entry \<open>n\<close> of the directory \<open>d\<close> resolves to
  the resolved path of \<open>d\<close> followed by \<open>n\<close>. This holds where the entries themselves are
  not symbolic links.
\<close>

definition entries_resolve :: "state \<Rightarrow> bool" where
  "entries_resolve st = (\<forall>d n. plain n \<longrightarrow> realpath st (join d n) = join (realpath st d) n)"

text \<open>Two paths that name one directory.\<close>

definition same_directory :: "state \<Rightarrow> string \<Rightarrow> string \<Rightarrow> bool" where
  "same_directory st a b = (join (realpath st a) [] = join (realpath st b) [])"

text \<open>
  The resolved paths that moving the file \<open>g\<close> under the prefix \<open>b\<close> can delete or write:
  the source, the destination where its last component can name a file, and the entry of
  the source's name inside the destination, for a destination that is a directory.
\<close>

definition touched :: "state \<Rightarrow> string \<Rightarrow> string \<Rightarrow> string list" where
  "touched st g b =
     (let src = join (currentPath st) g;
          dest = join b (replace g (b @ '' '') [])
      in [realpath st src, realpath st (join dest (basename src))] @
         (if plain (basename dest) then [realpath st dest] else []))"

section \<open>Properties\<close>

subsection \<open>Digests\<close>

lemma concat_read_chunks: "concat (read_chunks bs) = bs"
  by (induction bs rule: read_chunks.induct) simp_all

lemma foldl_update: "foldl update h cs = (fst h, snd h @ concat cs)"
  by (induction cs arbitrary: h) (simp_all add: update_def)

text \<open>Reading in chunks of 4096 bytes digests the whole content with the selected algorithm.\<close>

lemma hashFile_eq:
  "hashFile H st fname =
     (case open_rb st fname of
        Inl e \<Rightarrow> Inl e
      | Inr bs \<Rightarrow> Inr (digest_of H (fst (select_hash (hashCode st))) bs))"
  by (simp add: hashFile_def hexdigest_def foldl_update concat_read_chunks select_hash_def
      new_hash_def split: sum.splits)

text \<open>
  C6. With a \<open>hashMethod\<close> outside MD5, SHA-1, SHA-224 and SHA-256, \<open>hashFile\<close> does not fail
  because of the method: it fails only where opening the file fails, and otherwise returns
  the MD5 digest of the file's bytes.
\<close>

theorem hashFile_unknown_method_md5:
  assumes "hashCode st \<notin> {''MD5'', ''SHA-1'', ''SHA-224'', ''SHA-256''}"
  shows "hashFile H st fname =
           (case open_rb st fname of Inl e \<Rightarrow> Inl e | Inr bs \<Rightarrow> Inr (md5 H bs))"
  using assms by (auto simp: hashFile_eq select_hash_def new_hash_def split: sum.splits)

theorem hashFile_unknown_method_md5_witness:
  "''SHA-512'' \<notin> {''MD5'', ''SHA-1'', ''SHA-224'', ''SHA-256''} \<and>
   hashFile sample_hashlib (demo_state\<lparr>hashCode := ''SHA-512''\<rparr>) ''Images/notes.txt'' =
     Inr (md5 sample_hashlib [9])"
  using hashFile_unknown_method_md5
    [of "demo_state\<lparr>hashCode := ''SHA-512''\<rparr>" sample_hashlib "''Images/notes.txt''"]
  by (simp add: demo_state_def open_rb_def)

text \<open>
  C7. The digest of a file is a function of its bytes and of the configured method alone:
  two calls that read the same bytes under the same method return the same string, whatever
  else differs between the two states (other files, the ledger, digests computed before),
  because each call starts from a fresh hash object.
\<close>

theorem hashFile_deterministic:
  assumes "open_rb st1 f1 = Inr bs" and "open_rb st2 f2 = Inr bs"
    and "hashCode st1 = hashCode st2"
  shows "hashFile H st1 f1 = hashFile H st2 f2 \<and>
         hashFile H st1 f1 = Inr (digest_of H (fst (select_hash (hashCode st1))) bs)"
  using assms by (simp add: hashFile_eq)

theorem hashFile_deterministic_witness:
  "open_rb demo_state ''Images/foo bar.png'' = Inr [1, 2, 3] \<and>
   open_rb overlap_state ''Images/img2 cat.png'' = Inr [1, 2, 3] \<and>
   hashCode demo_state = hashCode overlap_state \<and>
   hashFile sample_hashlib demo_state ''Images/foo bar.png'' =
     hashFile sample_hashlib overlap_state ''Images/img2 cat.png''"
proof -
  have a: "open_rb demo_state ''Images/foo bar.png'' = Inr [1, 2, 3]"
    by (simp add: demo_state_def open_rb_def)
  have b: "open_rb overlap_state ''Images/img2 cat.png'' = Inr [1, 2, 3]"
    by (simp add: overlap_state_def demo_state_def open_rb_def)
  have c: "hashCode demo_state = hashCode overlap_state"
    by (simp add: overlap_state_def)
  from hashFile_deterministic [OF a b c, of sample_hashlib] a b c show ?thesis by simp
qed

subsection \<open>The ledger\<close>



subsection \<open>Strings and paths\<close>


text \<open>A leading occurrence is removed, and the search goes on in what follows it.\<close>

lemma replace_leading:
  "old \<noteq> [] \<Longrightarrow> replace (old @ s) old new = new @ replace s old new"
  by (cases old) simp_all

lemma set_replace_subset: "set (replace s old []) \<subseteq> set s"
proof (induction s old "[]::string" rule: replace.induct)
  case (1 old)
  then show ?case by simp
next
  case (2 c cs old)
  then show ?case
    using set_drop_subset [of "length old" "c # cs"] by (auto split: if_splits)
qed

lemma join_slashfree: "CHR ''/'' \<notin> set n \<Longrightarrow> join a n = join a [] @ n"
  by (cases n) (auto simp: join_def startswith_def)

lemma join_empty_cases: "join a [] = [] \<or> last (join a []) = CHR ''/''"
  by (simp add: join_def startswith_def)

lemma takeWhile_slashfree:
  "CHR ''/'' \<notin> set n \<Longrightarrow> takeWhile (\<lambda>c. c \<noteq> CHR ''/'') (rev n @ xs) = rev n @ takeWhile (\<lambda>c. c \<noteq> CHR ''/'') xs"
  by (rule takeWhile_append2) auto

lemma basename_append:
  assumes "CHR ''/'' \<notin> set n" and "pre = [] \<or> last pre = CHR ''/''"
  shows "basename (pre @ n) = n"
proof (cases pre rule: rev_cases)
  case Nil
  have tw: "takeWhile (\<lambda>c. c \<noteq> CHR ''/'') (rev n) = rev n"
    using assms(1) by auto
  show ?thesis unfolding basename_def Nil by (simp only: append_Nil tw rev_rev_ident)
next
  case (snoc ys y)
  with assms(2) have y: "y = CHR ''/''" by simp
  with takeWhile_slashfree [OF assms(1), of "CHR ''/'' # rev ys"] show ?thesis
    by (simp add: basename_def snoc)
qed

lemma basename_join: "CHR ''/'' \<notin> set n \<Longrightarrow> basename (join a n) = n"
  using basename_append [OF _ join_empty_cases, of n a] join_slashfree [of n a] by simp

lemma join_inject:
  assumes "CHR ''/'' \<notin> set m" "CHR ''/'' \<notin> set n" "join a m = join b n"
  shows "m = n \<and> join a [] = join b []"
proof -
  from assms(3) have "basename (join a m) = basename (join b n)" by simp
  with assms have mn: "m = n" using basename_join [of m a] basename_join [of n b] by simp
  from assms(3) join_slashfree [OF assms(1), of a] join_slashfree [OF assms(2), of b]
  have "join a [] @ m = join b [] @ n" by simp
  with mn show ?thesis by simp
qed

subsection \<open>What a move changes\<close>

lemma rename_Inr:
  "rename st src dst = Inr st' \<Longrightarrow>
     plain (basename dst) \<and>
     (\<exists>bs. map_of (files st) (realpath st src) = Some bs \<and>
       (st' = st \<or>
        st' = st\<lparr>files := AList.update (realpath st dst) bs
                            (AList.delete (realpath st src) (files st))\<rparr>))"
  by (auto simp: rename_def split: option.splits if_splits)

lemma rename_globals: "rename st src dst = Inr st' \<Longrightarrow> globals st' = globals st"
  by (auto simp: globals_def dest!: rename_Inr)

lemma rename_frame:
  "rename st src dst = Inr st' \<Longrightarrow> k \<noteq> realpath st src \<Longrightarrow>
     (plain (basename dst) \<longrightarrow> k \<noteq> realpath st dst) \<Longrightarrow>
     map_of (files st') k = map_of (files st) k"
  by (auto simp: update_conv' delete_conv' dest!: rename_Inr)


lemma shutil_move_Inr:
  "shutil_move st src dst = Inr st' \<Longrightarrow>
     rename st src dst = Inr st' \<or> rename st src (join dst (basename src)) = Inr st'"
  by (auto simp: shutil_move_def Let_def split: if_splits)

lemma shutil_move_globals: "shutil_move st src dst = Inr st' \<Longrightarrow> globals st' = globals st"
  by (auto dest!: shutil_move_Inr rename_globals)

lemma shutil_move_frame:
  "shutil_move st src dst = Inr st' \<Longrightarrow> k \<noteq> realpath st src \<Longrightarrow>
     (plain (basename dst) \<longrightarrow> k \<noteq> realpath st dst) \<Longrightarrow>
     k \<noteq> realpath st (join dst (basename src)) \<Longrightarrow> map_of (files st') k = map_of (files st) k"
  by (auto dest!: shutil_move_Inr dest: rename_frame)


lemma shutil_move_missing:
  "map_of (files st) (realpath st src) = None \<Longrightarrow> \<exists>e. shutil_move st src dst = Inl e"
  by (simp add: shutil_move_def rename_def Let_def)

lemma move_and_record_Inl:
  "shutil_move st (join (currentPath st) f) (join b (replace f (b @ '' '') [])) = Inl e \<Longrightarrow>
     move_and_record H f b st = (Raised e, st)"
  by (simp add: move_and_record_def Let_def)

text \<open>After the move, only the ledger is written.\<close>

lemma move_and_record_Inr:
  assumes "shutil_move st (join (currentPath st) f) (join b (replace f (b @ '' '') [])) = Inr st1"
  shows "globals (snd (move_and_record H f b st)) = globals st1"
    and "k \<noteq> realpath st ''fileHashes.json'' \<Longrightarrow>
           map_of (files (snd (move_and_record H f b st))) k = map_of (files st1) k"
    and "map_of (files st1) k \<noteq> None \<Longrightarrow> map_of (files (snd (move_and_record H f b st))) k \<noteq> None"
    and "\<not> getHashes st \<Longrightarrow> move_and_record H f b st = (Returned, st1)"
proof -
  from shutil_move_globals [OF assms] have g: "realpath st1 = realpath st" "getHashes st1 = getHashes st"
    by (simp_all add: globals_def)
  show "globals (snd (move_and_record H f b st)) = globals st1"
    using assms
    by (simp add: move_and_record_def Let_def ledger_record_def touch_ledger_def globals_def
        split: sum.splits)
  show "k \<noteq> realpath st ''fileHashes.json'' \<Longrightarrow>
           map_of (files (snd (move_and_record H f b st))) k = map_of (files st1) k"
    using assms g
    by (simp add: move_and_record_def Let_def ledger_record_def touch_ledger_def update_conv'
        split: sum.splits)
  show "map_of (files st1) k \<noteq> None \<Longrightarrow> map_of (files (snd (move_and_record H f b st))) k \<noteq> None"
    using assms g
    by (auto simp: move_and_record_def Let_def ledger_record_def touch_ledger_def update_conv'
        split: sum.splits)
  show "\<not> getHashes st \<Longrightarrow> move_and_record H f b st = (Returned, st1)"
    using assms g by (simp add: move_and_record_def Let_def)
qed

lemma move_and_record_globals: "globals (snd (move_and_record H f b st)) = globals st"
proof (cases "shutil_move st (join (currentPath st) f) (join b (replace f (b @ '' '') []))")
  case (Inl e)
  then show ?thesis by (simp add: move_and_record_Inl)
next
  case (Inr st1)
  then show ?thesis using move_and_record_Inr(1) [OF Inr, of H] shutil_move_globals [OF Inr] by simp
qed

lemma touched_globals: "globals st' = globals st \<Longrightarrow> touched st' g b = touched st g b"
  by (simp add: touched_def globals_def Let_def)

lemma move_and_record_frame:
  assumes "k \<notin> set (touched st f b)" and "k \<noteq> realpath st ''fileHashes.json''"
  shows "map_of (files (snd (move_and_record H f b st))) k = map_of (files st) k"
proof (cases "shutil_move st (join (currentPath st) f) (join b (replace f (b @ '' '') []))")
  case (Inl e)
  then show ?thesis by (simp add: move_and_record_Inl)
next
  case (Inr st1)
  from assms(1) have "map_of (files st1) k = map_of (files st) k"
    by (intro shutil_move_frame [OF Inr]) (auto simp: touched_def Let_def)
  with move_and_record_Inr(2) [OF Inr assms(2), of H] show ?thesis by simp
qed



lemma set_map_filter_Some: "y \<in> set (List.map_filter g xs) \<Longrightarrow> \<exists>x\<in>set xs. g x = Some y"
  by (induction xs) (auto split: option.splits)


lemma replace_slashfree: "CHR ''/'' \<notin> set f \<Longrightarrow> CHR ''/'' \<notin> set (replace f old [])"
  using set_replace_subset [of f old] by auto

lemma match_prefixes_globals: "globals (snd (match_prefixes H f bs st)) = globals st"
proof (induction bs arbitrary: st)
  case Nil
  then show ?case by simp
next
  case (Cons b bs)
  show ?case
  proof (cases "startswith f b")
    case False
    with Cons show ?thesis by simp
  next
    case True
    obtain r st' where m: "move_and_record H f b st = (r, st')" by (cases "move_and_record H f b st")
    with move_and_record_globals [of H f b st] have g: "globals st' = globals st" by simp
    show ?thesis using True m g Cons.IH [of st'] by (cases r) simp_all
  qed
qed

lemma main_files_globals: "globals (snd (main_files H fs st)) = globals st"
proof (induction fs arbitrary: st)
  case Nil
  then show ?case by simp
next
  case (Cons f fs)
  obtain r st' where m: "match_prefixes H f (path st) st = (r, st')"
    by (cases "match_prefixes H f (path st) st")
  with match_prefixes_globals [of H f "path st" st] have g: "globals st' = globals st" by simp
  show ?case using m g Cons.IH [of st'] by (cases r) simp_all
qed

lemma main_globals: "globals (snd (main H st)) = globals st"
  by (simp add: main_def main_files_globals split: sum.splits)

lemma match_prefixes_no_match:
  "\<forall>b\<in>set bs. \<not> startswith f b \<Longrightarrow> match_prefixes H f bs st = (Returned, st)"
  by (induction bs) simp_all

lemma match_prefixes_frame:
  assumes "\<forall>b\<in>set bs. startswith g b \<longrightarrow> k \<notin> set (touched st g b)"
    and "k \<noteq> realpath st ''fileHashes.json''"
  shows "map_of (files (snd (match_prefixes H g bs st))) k = map_of (files st) k"
  using assms
proof (induction bs arbitrary: st)
  case Nil
  then show ?case by simp
next
  case (Cons b bs)
  show ?case
  proof (cases "startswith g b")
    case False
    with Cons show ?thesis by simp
  next
    case True
    obtain r st' where m: "move_and_record H g b st = (r, st')" by (cases "move_and_record H g b st")
    from True Cons.prems have "k \<notin> set (touched st g b)" by simp
    from move_and_record_frame [OF this Cons.prems(2), of H] m
    have fr: "map_of (files st') k = map_of (files st) k" by simp
    from move_and_record_globals [of H g b st] m have gl: "globals st' = globals st" by simp
    then have rp: "realpath st' = realpath st" by (simp add: globals_def)
    show ?thesis
    proof (cases r)
      case Returned
      from Cons.IH [of st'] Cons.prems
      have "map_of (files (snd (match_prefixes H g bs st'))) k = map_of (files st') k"
        by (simp add: touched_globals [OF gl] rp)
      with Returned True m fr show ?thesis by simp
    next
      case (Raised e)
      with True m fr show ?thesis by simp
    qed
  qed
qed

lemma main_files_frame:
  assumes "\<forall>g\<in>set gs. \<forall>b\<in>set (path st). startswith g b \<longrightarrow> k \<notin> set (touched st g b)"
    and "k \<noteq> realpath st ''fileHashes.json''"
  shows "map_of (files (snd (main_files H gs st))) k = map_of (files st) k"
  using assms
proof (induction gs arbitrary: st)
  case Nil
  then show ?case by simp
next
  case (Cons g gs)
  obtain r st' where m: "match_prefixes H g (path st) st = (r, st')"
    by (cases "match_prefixes H g (path st) st")
  from Cons.prems have "\<forall>b\<in>set (path st). startswith g b \<longrightarrow> k \<notin> set (touched st g b)" by simp
  from match_prefixes_frame [OF this Cons.prems(2), of H] m
  have fr: "map_of (files st') k = map_of (files st) k" by simp
  from match_prefixes_globals [of H g "path st" st] m have gl: "globals st' = globals st" by simp
  then have rp: "realpath st' = realpath st" "path st' = path st" by (simp_all add: globals_def)
  show ?case
  proof (cases r)
    case Returned
    from Cons.IH [of st'] Cons.prems
    have "map_of (files (snd (main_files H gs st'))) k = map_of (files st') k"
      by (simp add: touched_globals [OF gl] rp)
    with Returned m fr show ?thesis by simp
  next
    case (Raised e)
    with m fr show ?thesis by simp
  qed
qed





lemma main_files_skip:
  assumes "\<forall>b\<in>set (path st). \<not> startswith f b"
  shows "main_files H gs st = main_files H (removeAll f gs) st"
  using assms
proof (induction gs arbitrary: st)
  case Nil
  then show ?case by simp
next
  case (Cons g gs)
  show ?case
  proof (cases "g = f")
    case True
    with Cons show ?thesis by (simp add: match_prefixes_no_match)
  next
    case False
    obtain r st' where m: "match_prefixes H g (path st) st = (r, st')"
      by (cases "match_prefixes H g (path st) st")
    from match_prefixes_globals [of H g "path st" st] m
    have gl: "path st' = path st" by (simp add: globals_def)
    show ?thesis using False m Cons.IH [of st'] Cons.prems gl by (cases r) simp_all
  qed
qed

lemma child_plain: "child d p = Some n \<Longrightarrow> plain n"
  by (auto simp: child_def Let_def split: if_splits)

lemma onlyfiles_plain: "onlyfiles st = Inr fs \<Longrightarrow> g \<in> set fs \<Longrightarrow> plain g"
  by (auto simp: onlyfiles_def listdir_def split: sum.splits if_splits
      dest!: set_map_filter_Some dest: child_plain)


text \<open>
  Where resolution goes through the directories, the entries of one directory are apart
  by their names, and the entries of two directories by the directories.
\<close>

lemma entry_inject:
  assumes "entries_resolve st" and "plain m" and "plain n"
    and "realpath st (join a m) = realpath st (join b n)"
  shows "m = n \<and> same_directory st a b"
proof -
  from assms(1,2) have "realpath st (join a m) = join (realpath st a) m"
    by (simp add: entries_resolve_def)
  moreover from assms(1,3) have "realpath st (join b n) = join (realpath st b) n"
    by (simp add: entries_resolve_def)
  ultimately have "join (realpath st a) m = join (realpath st b) n" using assms(4) by simp
  with join_inject [of m n "realpath st a" "realpath st b"] assms(2,3)
  show ?thesis by (simp add: plain_def same_directory_def)
qed

text \<open>
  What the move of another file can touch is not a file of the watched directory that
  starts with no prefix, unless the prefix names the watched directory.
\<close>

lemma touched_other_directory:
  assumes "entries_resolve st" and "plain f" and "plain g" and "g \<noteq> f"
    and "\<not> same_directory st b (currentPath st)"
  shows "realpath st (join (currentPath st) f) \<notin> set (touched st g b)"
proof -
  let ?k = "realpath st (join (currentPath st) f)"
  let ?dest = "join b (replace g (b @ '' '') [])"
  from assms(3) have sf: "CHR ''/'' \<notin> set g" by (simp add: plain_def)
  then have bn: "basename (join (currentPath st) g) = g" by (rule basename_join)
  have k1: "?k \<noteq> realpath st (join (currentPath st) g)"
    using entry_inject [OF assms(1,2,3), of "currentPath st" "currentPath st"] assms(4) by auto
  have k2: "?k \<noteq> realpath st (join ?dest g)"
    using entry_inject [OF assms(1,2,3), of "currentPath st" ?dest] assms(4) by auto
  have dn: "basename ?dest = replace g (b @ '' '') []"
    using replace_slashfree [OF sf] by (rule basename_join)
  have k3: "plain (basename ?dest) \<Longrightarrow> ?k \<noteq> realpath st ?dest"
    using entry_inject [OF assms(1,2), of "replace g (b @ '' '') []" "currentPath st" b] assms(5)
    by (auto simp: dn same_directory_def)
  show ?thesis using k1 k2 k3 by (auto simp: touched_def Let_def bn)
qed

subsection \<open>Dispatch\<close>

lemmas eval_defs = main_def onlyfiles_def listdir_def isdir_def rstrip_sep_def List.map_filter_def
  child_def plain_def join_def startswith_def isfile_def move_and_record_def shutil_move_def
  rename_def exists_path_def basename_def dirname_def hashFile_def open_rb_def select_hash_def
  new_hash_def hexdigest_def update_def ledger_record_def touch_ledger_def Let_def





text \<open>
  C9, as amended. Let no registered prefix name the watched directory itself, under any
  spelling of either path. A listed file that starts with none of the prefixes and is not
  the ledger keeps its place and its content through a pass, and the pass is the one that
  would run without the file in the listing: nothing is moved, hashed or recorded on its
  account.
\<close>

theorem unmatched_file_left_alone:
  assumes "onlyfiles st = Inr fs" and "f \<in> set fs"
    and "\<forall>b\<in>set (path st). \<not> startswith f b"
    and "entries_resolve st"
    and "\<forall>b\<in>set (path st). \<not> same_directory st b (currentPath st)"
    and "realpath st (join (currentPath st) f) \<noteq> realpath st ''fileHashes.json''"
  shows "map_of (files (snd (main H st))) (realpath st (join (currentPath st) f)) =
           map_of (files st) (realpath st (join (currentPath st) f)) \<and>
         main H st = main_files H (removeAll f fs) st"
proof -
  let ?k = "realpath st (join (currentPath st) f)"
  have pf: "plain f" using assms(1,2) by (rule onlyfiles_plain)
  have tch: "\<forall>g\<in>set fs. \<forall>b\<in>set (path st). startswith g b \<longrightarrow> ?k \<notin> set (touched st g b)"
  proof (intro ballI impI)
    fix g b
    assume g: "g \<in> set fs" and b: "b \<in> set (path st)" and s: "startswith g b"
    from assms(1) g have pg: "plain g" by (rule onlyfiles_plain)
    from assms(3) b s have ne: "g \<noteq> f" by auto
    from assms(5) b have nd: "\<not> same_directory st b (currentPath st)" by simp
    from assms(4) pf pg ne nd show "?k \<notin> set (touched st g b)" by (rule touched_other_directory)
  qed
  have m: "main H st = main_files H fs st" using assms(1) by (simp add: main_def)
  show ?thesis
    unfolding m
    using main_files_frame [OF tch assms(6), of H] main_files_skip [OF assms(3), of H fs]
    by simp
qed

theorem unmatched_file_left_alone_witness:
  "onlyfiles demo_state = Inr [''foo bar.png'', ''notes.txt''] \<and>
   ''notes.txt'' \<in> set [''foo bar.png'', ''notes.txt''] \<and>
   \<not> list_ex (startswith ''notes.txt'') (path demo_state) \<and>
   \<not> list_ex (\<lambda>b. same_directory demo_state b (currentPath demo_state)) (path demo_state) \<and>
   realpath demo_state (join (currentPath demo_state) ''notes.txt'') \<noteq>
     realpath demo_state ''fileHashes.json'' \<and>
   map_of (files (snd (main sample_hashlib demo_state))) ''Images/notes.txt'' = Some [9] \<and>
   main sample_hashlib demo_state = main_files sample_hashlib [''foo bar.png''] demo_state"
proof -
  have a: "onlyfiles demo_state = Inr [''foo bar.png'', ''notes.txt'']"
    by (simp add: demo_state_def eval_defs)
  have b: "''notes.txt'' \<in> set [''foo bar.png'', ''notes.txt'']" by simp
  have c: "\<forall>b\<in>set (path demo_state). \<not> startswith ''notes.txt'' b"
    by (simp add: demo_state_def startswith_def)
  have w: "entries_resolve demo_state" by (simp add: entries_resolve_def demo_state_def)
  have d: "\<forall>b\<in>set (path demo_state). \<not> same_directory demo_state b (currentPath demo_state)"
    by (simp add: demo_state_def same_directory_def join_def startswith_def)
  have e: "realpath demo_state (join (currentPath demo_state) ''notes.txt'') \<noteq>
      realpath demo_state ''fileHashes.json''"
    by (simp add: demo_state_def join_def startswith_def)
  have j: "realpath demo_state (join (currentPath demo_state) ''notes.txt'') = ''Images/notes.txt''"
    "map_of (files demo_state) ''Images/notes.txt'' = Some [9]"
    by (simp_all add: demo_state_def join_def startswith_def)
  have rm: "removeAll ''notes.txt'' [''foo bar.png'', ''notes.txt''] = [''foo bar.png'']"
    by simp
  note t = unmatched_file_left_alone [OF a b c w d e, of sample_hashlib, unfolded j rm]
  have c': "\<not> list_ex (startswith ''notes.txt'') (path demo_state)"
    using c by (simp add: list_ex_iff)
  have d': "\<not> list_ex (\<lambda>b. same_directory demo_state b (currentPath demo_state)) (path demo_state)"
    using d by (simp add: list_ex_iff)
  show ?thesis
    by (intro conjI) (rule a b c' d' e t [THEN conjunct1] t [THEN conjunct2])+
qed

text \<open>
  Without these provisos the claim fails. With the watched directory \<open>Images\<close> registered
  as a prefix, the file \<open>Images x.png\<close> is moved onto \<open>Images/x.png\<close>, a file that starts
  with no prefix, and replaces its content; so it is when the watched directory is spelled
  \<open>./Images\<close>. And when the working directory is watched, the ledger is one of its files:
  it starts with no prefix, and recording the digest of \<open>foo bar.png\<close> rewrites it.
\<close>

theorem unmatched_file_overwritten_counterexample:
  "onlyfiles alias_state = Inr [''Images x.png'', ''x.png''] \<and>
   \<not> list_ex (startswith ''x.png'') (path alias_state) \<and>
   map_of (files alias_state) (realpath alias_state (join (currentPath alias_state) ''x.png'')) =
     Some [9] \<and>
   map_of (files (snd (main sample_hashlib alias_state)))
       (realpath alias_state (join (currentPath alias_state) ''x.png'')) =
     Some [1, 2, 3] \<and>
   onlyfiles dot_state = Inr [''Images x.png'', ''x.png''] \<and>
   \<not> list_ex (startswith ''x.png'') (path dot_state) \<and>
   \<not> list_ex ((=) (currentPath dot_state)) (path dot_state) \<and>
   map_of (files dot_state) (realpath dot_state (join (currentPath dot_state) ''x.png'')) =
     Some [9] \<and>
   map_of (files (snd (main sample_hashlib dot_state)))
       (realpath dot_state (join (currentPath dot_state) ''x.png'')) =
     Some [1, 2, 3] \<and>
   onlyfiles cwd_state = Inr [''fileHashes.json'', ''foo bar.png''] \<and>
   \<not> list_ex (startswith ''fileHashes.json'') (path cwd_state) \<and>
   map_of (files cwd_state) (realpath cwd_state (join (currentPath cwd_state) ''fileHashes.json'')) =
     Some [0] \<and>
   map_of (files (snd (main sample_hashlib cwd_state)))
       (realpath cwd_state (join (currentPath cwd_state) ''fileHashes.json'')) =
     Some (json_dump [(''foo | bar.png'', md5 sample_hashlib [1, 2, 3])]) \<and>
   json_dump [(''foo | bar.png'', md5 sample_hashlib [1, 2, 3])] \<noteq> [0]"
proof -
  have a: "onlyfiles alias_state = Inr [''Images x.png'', ''x.png''] \<and>
      \<not> list_ex (startswith ''x.png'') (path alias_state) \<and>
      map_of (files alias_state) (realpath alias_state (join (currentPath alias_state) ''x.png'')) =
        Some [9] \<and>
      map_of (files (snd (main sample_hashlib alias_state)))
          (realpath alias_state (join (currentPath alias_state) ''x.png'')) =
        Some [1, 2, 3]"
    by (simp add: alias_state_def demo_state_def eval_defs)
  have b: "onlyfiles dot_state = Inr [''Images x.png'', ''x.png''] \<and>
      \<not> list_ex (startswith ''x.png'') (path dot_state) \<and>
      \<not> list_ex ((=) (currentPath dot_state)) (path dot_state) \<and>
      map_of (files dot_state) (realpath dot_state (join (currentPath dot_state) ''x.png'')) =
        Some [9] \<and>
      map_of (files (snd (main sample_hashlib dot_state)))
          (realpath dot_state (join (currentPath dot_state) ''x.png'')) =
        Some [1, 2, 3]"
    by (simp add: dot_state_def dot_realpath_def alias_state_def demo_state_def eval_defs)
  have c: "onlyfiles cwd_state = Inr [''fileHashes.json'', ''foo bar.png''] \<and>
      \<not> list_ex (startswith ''fileHashes.json'') (path cwd_state) \<and>
      map_of (files cwd_state) (realpath cwd_state (join (currentPath cwd_state) ''fileHashes.json'')) =
        Some [0] \<and>
      map_of (files (snd (main sample_hashlib cwd_state)))
          (realpath cwd_state (join (currentPath cwd_state) ''fileHashes.json'')) =
        Some (json_dump [(''foo | bar.png'', md5 sample_hashlib [1, 2, 3])])"
    by (simp add: cwd_state_def dot_realpath_def demo_state_def eval_defs)
  have d: "json_dump [(''foo | bar.png'', md5 sample_hashlib [1, 2, 3])] \<noteq> [0]"
    by (simp add: json_dump_def)
  from a b c d show ?thesis by blast
qed

text \<open>
  C1. The loop over the prefixes does not stop at the first match. With the prefixes
  \<open>img\<close> and \<open>img2\<close> the file \<open>img2 cat.png\<close> is moved into \<open>img\<close>, then \<open>img2\<close> is tested
  and matches too, and the second move of the file, which has gone, raises.
\<close>

theorem second_matching_prefix_is_tried:
  "main H overlap_state =
     (Raised (FileNotFoundError ''Images/img2 cat.png''),
      overlap_state\<lparr>files := [(''img/img2 cat.png'', [1, 2, 3])]\<rparr>)"
  by (simp add: overlap_state_def demo_state_def eval_defs)

text \<open>
  C4. The destination name is the file name without every occurrence of the prefix and
  its space, not only the leading one: \<open>foo foo bar\<close> under the prefix \<open>foo\<close> becomes
  \<open>bar\<close>, where the claim expects \<open>foo bar\<close>.
\<close>

theorem repeated_prefix_removed_everywhere:
  "replace ''foo foo bar'' (''foo'' @ '' '') [] = ''bar'' \<and>
   main H repeat_state = (Returned, repeat_state\<lparr>files := [(''foo/bar'', [1, 2, 3])]\<rparr>)"
  by (simp add: repeat_state_def demo_state_def eval_defs)

subsection \<open>The polling loop and the start-up\<close>

lemma run_loop_not_running: "\<not> isRunning st \<Longrightarrow> run_loop H obs st = (Stopped, st)"
  by (cases obs) simp_all

lemma observe_fields:
  "parser (observe ob st) = parser st" "config_ini (observe ob st) = fst ob"
  "currentPath (observe ob st) = currentPath st" "getHashes (observe ob st) = getHashes st"
  "hashCode (observe ob st) = hashCode st" "isRunning (observe ob st) = isRunning st"
  "path (observe ob st) = path st" "dirs (observe ob st) = dirs st"
  by (simp_all add: observe_def)

lemma cycle_reads_running:
  assumes "config_ini st = Some (Settings m)" and "m ''isRunning'' = Some v"
  shows "cycle H st = main H (st\<lparr>parser := parser st ++ m, isRunning := (v = ''true'')\<rparr>)"
  using assms by (simp add: cycle_def parser_read_def parser_get_def)

lemma main_fixed:
  "currentPath (snd (main H st)) = currentPath st \<and> getHashes (snd (main H st)) = getHashes st \<and>
   hashCode (snd (main H st)) = hashCode st \<and> isRunning (snd (main H st)) = isRunning st \<and>
   path (snd (main H st)) = path st \<and> dirs (snd (main H st)) = dirs st"
  using main_globals [of H st] by (simp add: globals_def)

lemma cycle_fixed:
  "currentPath (snd (cycle H st)) = currentPath st \<and> getHashes (snd (cycle H st)) = getHashes st \<and>
   hashCode (snd (cycle H st)) = hashCode st"
  by (simp add: cycle_def parser_read_def parser_get_def main_fixed
      split: option.splits ini.splits sum.splits)

lemma run_loop_fixed:
  "currentPath (snd (run_loop H obs st)) = currentPath st \<and>
   getHashes (snd (run_loop H obs st)) = getHashes st \<and>
   hashCode (snd (run_loop H obs st)) = hashCode st"
proof (induction obs arbitrary: st)
  case Nil
  then show ?case by simp
next
  case (Cons ob obs)
  obtain r st' where c: "cycle H (observe ob st) = (r, st')" by (cases "cycle H (observe ob st)")
  from cycle_fixed [of H "observe ob st"] c
  have f: "currentPath st' = currentPath st" "getHashes st' = getHashes st" "hashCode st' = hashCode st"
    by (simp_all add: observe_fields)
  show ?case using c f Cons.IH [of st'] by (cases r) simp_all
qed

text \<open>
  C2, as amended. An iteration that reads a running flag other than \<open>true\<close> still runs its
  pass over the watched directory (listing, moves, digests) with the flag already off;
  the loop ends after that pass, whatever observations would follow: no later iteration
  lists, moves or records anything.
\<close>

theorem loop_ends_after_cycle_that_reads_false:
  assumes "isRunning st" and "fst ob = Some (Settings m)"
    and "m ''isRunning'' = Some v" and "v \<noteq> ''true''"
  shows "run_loop H (ob # obs) st =
           (case main H ((observe ob st)\<lparr>parser := parser st ++ m, isRunning := False\<rparr>) of
              (Returned, st') \<Rightarrow> (Stopped, st')
            | (Raised e, st') \<Rightarrow> (Crashed e, st'))"
proof -
  let ?st2 = "(observe ob st)\<lparr>parser := parser st ++ m, isRunning := False\<rparr>"
  have c: "cycle H (observe ob st) = main H ?st2"
    using cycle_reads_running [of "observe ob st" m v H] assms(2-4) by (simp add: observe_fields)
  obtain r st' where m: "main H ?st2 = (r, st')" by (cases "main H ?st2")
  from main_fixed [of H ?st2] m have nr: "\<not> isRunning st'" by simp
  show ?thesis using assms(1) c m nr by (cases r) (simp_all add: run_loop_not_running)
qed

text \<open>A pass reads neither the parser nor the settings resource.\<close>

lemma fs_ignores_settings:
  "isdir (st\<lparr>parser := p, config_ini := c\<rparr>) = isdir st"
  "isfile (st\<lparr>parser := p, config_ini := c\<rparr>) = isfile st"
  "exists_path (st\<lparr>parser := p, config_ini := c\<rparr>) = exists_path st"
  "open_rb (st\<lparr>parser := p, config_ini := c\<rparr>) = open_rb st"
  "isdir (st\<lparr>fileHashes_json := l\<rparr>) = isdir st"
  "open_rb (st\<lparr>fileHashes_json := l\<rparr>) = open_rb st"
  by (simp_all add: fun_eq_iff isdir_def isfile_def exists_path_def open_rb_def)

lemma rename_ignores_settings:
  "rename (st\<lparr>parser := p, config_ini := c\<rparr>) src dst =
     (case rename st src dst of Inl e \<Rightarrow> Inl e | Inr st' \<Rightarrow> Inr (st'\<lparr>parser := p, config_ini := c\<rparr>))"
  unfolding rename_def fs_ignores_settings by (simp split: option.splits)

lemma shutil_move_ignores_settings:
  "shutil_move (st\<lparr>parser := p, config_ini := c\<rparr>) src dst =
     (case shutil_move st src dst of Inl e \<Rightarrow> Inl e | Inr st' \<Rightarrow> Inr (st'\<lparr>parser := p, config_ini := c\<rparr>))"
  unfolding shutil_move_def fs_ignores_settings rename_ignores_settings by (simp add: Let_def)

lemma hashFile_ignores_settings:
  "hashFile H (st\<lparr>parser := p, config_ini := c\<rparr>) f = hashFile H st f"
  "hashFile H (st\<lparr>fileHashes_json := l\<rparr>) f = hashFile H st f"
  unfolding hashFile_def fs_ignores_settings by simp_all

lemma ledger_ignores_settings:
  "touch_ledger (st\<lparr>parser := p, config_ini := c\<rparr>) = (touch_ledger st)\<lparr>parser := p, config_ini := c\<rparr>"
  "ledger_record b n hx (st\<lparr>parser := p, config_ini := c\<rparr>) =
     (ledger_record b n hx st)\<lparr>parser := p, config_ini := c\<rparr>"
  by (simp_all add: touch_ledger_def ledger_record_def Let_def)

lemma move_and_record_ignores_settings:
  "move_and_record H f b (st\<lparr>parser := p, config_ini := c\<rparr>) =
     (fst (move_and_record H f b st), (snd (move_and_record H f b st))\<lparr>parser := p, config_ini := c\<rparr>)"
proof (cases "shutil_move st (join (currentPath st) f) (join b (replace f (b @ '' '') []))")
  case (Inl e)
  then show ?thesis by (simp add: move_and_record_def shutil_move_ignores_settings)
next
  case (Inr st1)
  show ?thesis
  proof (cases "exists_path st1 ''fileHashes.json''")
    case True
    with Inr show ?thesis
      by (simp add: move_and_record_def shutil_move_ignores_settings hashFile_ignores_settings
          fs_ignores_settings ledger_ignores_settings Let_def split: sum.splits)
  next
    case False
    with Inr show ?thesis
      by (simp add: move_and_record_def shutil_move_ignores_settings hashFile_ignores_settings
          fs_ignores_settings ledger_ignores_settings Let_def split: sum.splits)
  qed
qed

lemma match_prefixes_ignores_settings:
  "match_prefixes H f bs (st\<lparr>parser := p, config_ini := c\<rparr>) =
     (fst (match_prefixes H f bs st), (snd (match_prefixes H f bs st))\<lparr>parser := p, config_ini := c\<rparr>)"
proof (induction bs arbitrary: st)
  case Nil
  then show ?case by simp
next
  case (Cons b bs)
  show ?case
  proof (cases "startswith f b")
    case False
    then show ?thesis using Cons.IH [of st] by simp
  next
    case True
    obtain r st' where m: "move_and_record H f b st = (r, st')" by (cases "move_and_record H f b st")
    show ?thesis using True m Cons.IH [of st']
      by (cases r) (simp_all add: move_and_record_ignores_settings)
  qed
qed

lemma main_files_ignores_settings:
  "main_files H fs (st\<lparr>parser := p, config_ini := c\<rparr>) =
     (fst (main_files H fs st), (snd (main_files H fs st))\<lparr>parser := p, config_ini := c\<rparr>)"
proof (induction fs arbitrary: st)
  case Nil
  then show ?case by simp
next
  case (Cons f fs)
  obtain r st' where m: "match_prefixes H f (path st) st = (r, st')"
    by (cases "match_prefixes H f (path st) st")
  show ?case using m Cons.IH [of st'] by (cases r) (simp_all add: match_prefixes_ignores_settings)
qed

lemma onlyfiles_ignores_settings:
  "onlyfiles (st\<lparr>parser := p, config_ini := c\<rparr>) = onlyfiles st"
  unfolding onlyfiles_def listdir_def fs_ignores_settings by simp

lemma main_ignores_settings:
  "main H (st\<lparr>parser := p, config_ini := c\<rparr>) =
     (fst (main H st), (snd (main H st))\<lparr>parser := p, config_ini := c\<rparr>)"
  by (simp add: main_def onlyfiles_ignores_settings main_files_ignores_settings split: sum.splits)

text \<open>
  C3, as amended. An iteration reloads the running flag only: the pass runs with the flag
  as the settings resource holds it at the top of the iteration, and with the watched
  directory, the digest switch and the digest method that the process read when it
  started, which the loop never assigns again. Two settings resources that agree on the
  running flag give the same iteration, whatever else they say: the outcome and the state
  are the same, apart from the parser and the resource itself.
\<close>

theorem only_running_flag_is_reloaded:
  assumes "fst ob = Some (Settings m)" and "m ''isRunning'' = Some v"
    and "fst ob' = Some (Settings m')" and "m' ''isRunning'' = Some v" and "snd ob' = snd ob"
  shows "cycle H (observe ob st) =
           main H ((observe ob st)\<lparr>parser := parser st ++ m, isRunning := (v = ''true'')\<rparr>) \<and>
         currentPath ((observe ob st)\<lparr>parser := parser st ++ m, isRunning := (v = ''true'')\<rparr>) =
           currentPath st \<and>
         getHashes ((observe ob st)\<lparr>parser := parser st ++ m, isRunning := (v = ''true'')\<rparr>) =
           getHashes st \<and>
         hashCode ((observe ob st)\<lparr>parser := parser st ++ m, isRunning := (v = ''true'')\<rparr>) =
           hashCode st \<and>
         currentPath (snd (run_loop H (ob # obs) st)) = currentPath st \<and>
         getHashes (snd (run_loop H (ob # obs) st)) = getHashes st \<and>
         hashCode (snd (run_loop H (ob # obs) st)) = hashCode st \<and>
         cycle H (observe ob' st) =
           (fst (cycle H (observe ob st)),
            (snd (cycle H (observe ob st)))\<lparr>parser := parser st ++ m', config_ini := fst ob'\<rparr>)"
proof -
  let ?b = "v = ''true''"
  have c: "cycle H (observe ob st) = main H ((observe ob st)\<lparr>parser := parser st ++ m, isRunning := ?b\<rparr>)"
    using cycle_reads_running [of "observe ob st" m v H] assms(1,2) by (simp add: observe_fields)
  have c': "cycle H (observe ob' st) = main H ((observe ob' st)\<lparr>parser := parser st ++ m', isRunning := ?b\<rparr>)"
    using cycle_reads_running [of "observe ob' st" m' v H] assms(3,4) by (simp add: observe_fields)
  have e: "(observe ob' st)\<lparr>parser := parser st ++ m', isRunning := ?b\<rparr> =
           ((observe ob st)\<lparr>parser := parser st ++ m, isRunning := ?b\<rparr>)
             \<lparr>parser := parser st ++ m', config_ini := fst ob'\<rparr>"
    using assms(5) by (simp add: observe_def)
  have two: "cycle H (observe ob' st) =
           (fst (cycle H (observe ob st)),
            (snd (cycle H (observe ob st)))\<lparr>parser := parser st ++ m', config_ini := fst ob'\<rparr>)"
    unfolding c c' e by (rule main_ignores_settings)
  show ?thesis
    using c two run_loop_fixed [of H "ob # obs" st]
    by (simp add: observe_fields del: run_loop.simps)
qed

text \<open>
  C10. When the settings present at start-up hold a running flag other than \<open>true\<close>, the
  process ends without entering the block under \<open>if isRunning\<close>: the prefix list stays
  empty, no directory is created, no file is moved or hashed, and the only change on disk
  is the prefix-list resource created with its default when it was absent.
\<close>

theorem not_running_at_start_only_bootstraps:
  assumes "config_ini world = Some (Settings m)" and "m ''isRunning'' = Some v"
    and "v \<noteq> ''true''"
  shows "(fst (program H obs world) = Stopped \<or>
            (\<exists>k. fst (program H obs world) = Crashed (NoOptionError k))) \<and>
         path (snd (program H obs world)) = [] \<and>
         dirs (snd (program H obs world)) = dirs world \<and>
         files (snd (program H obs world)) = files world \<and>
         hashStore (snd (program H obs world)) = [] \<and>
         fileHashes_json (snd (program H obs world)) = fileHashes_json world \<and>
         config_ini (snd (program H obs world)) = config_ini world \<and>
         filePaths_json (snd (program H obs world)) =
           (case filePaths_json world of None \<Rightarrow> Some [''empty''] | Some p \<Rightarrow> Some p)"
  using assms
  by (auto simp: program_def bootstrap_def init_globals_def read_settings_def parser_read_def
      parser_get_def Let_def split: option.splits)

lemmas loop_defs = cycle_def observe_def parser_read_def parser_get_def stop_settings_def
  edited_settings_def default_settings_def stop_observation_def edit_observation_def
  late_observation_def

lemmas start_defs = program_def bootstrap_def init_globals_def read_settings_def prepare_def
  makedirs_def ancestors_def demo_world_def stopped_world_def

text \<open>
  The claim as stated fails: the iteration that reads \<open>isRunning = false\<close> moves
  \<open>foo bar.png\<close> and records its digest before the loop ends.
\<close>

theorem cycle_that_reads_false_still_moves_counterexample:
  "stop_settings ''isRunning'' = Some ''false'' \<and>
   fst (run_loop sample_hashlib [stop_observation] demo_state) = Stopped \<and>
   map_of (files (snd (run_loop sample_hashlib [stop_observation] demo_state))) ''Images/foo bar.png'' = None \<and>
   map_of (files (snd (run_loop sample_hashlib [stop_observation] demo_state))) ''foo/bar.png'' = Some [1, 2, 3] \<and>
   map fst (hashStore (snd (run_loop sample_hashlib [stop_observation] demo_state))) = [''foo | bar.png'']"
  by (simp add: loop_defs demo_state_def eval_defs)

theorem loop_ends_after_cycle_that_reads_false_witness:
  "isRunning demo_state \<and> fst stop_observation = Some (Settings stop_settings) \<and>
   stop_settings ''isRunning'' = Some ''false'' \<and> ''false'' \<noteq> ''true'' \<and>
   fst (run_loop sample_hashlib [stop_observation, late_observation] demo_state) = Stopped \<and>
   map_of (files (snd (run_loop sample_hashlib [stop_observation, late_observation] demo_state)))
     ''foo/bar.png'' = Some [1, 2, 3] \<and>
   map_of (files (snd (run_loop sample_hashlib [stop_observation, late_observation] demo_state)))
     ''Images/foo late.txt'' = None"
proof -
  have a: "isRunning demo_state" by (simp add: demo_state_def)
  have b: "fst stop_observation = Some (Settings stop_settings)" by (simp add: stop_observation_def)
  have c: "stop_settings ''isRunning'' = Some ''false''" by (simp add: stop_settings_def)
  have d: "''false'' \<noteq> ''true''" by simp
  have m: "main sample_hashlib ((observe stop_observation demo_state)
             \<lparr>parser := parser demo_state ++ stop_settings, isRunning := False\<rparr>) =
           (Returned, (observe stop_observation demo_state)
             \<lparr>parser := parser demo_state ++ stop_settings, isRunning := False,
              files := [(''Images/notes.txt'', [9]), (''foo/bar.png'', [1, 2, 3]),
                        (''fileHashes.json'',
                         json_dump [(''foo | bar.png'', md5 sample_hashlib [1, 2, 3])])],
              hashStore := [(''foo | bar.png'', md5 sample_hashlib [1, 2, 3])],
              fileHashes_json := LedgerJson [(''foo | bar.png'', md5 sample_hashlib [1, 2, 3])]\<rparr>)"
    by (simp add: observe_def stop_observation_def demo_state_def eval_defs)
  note t = loop_ends_after_cycle_that_reads_false
    [OF a b c d, of sample_hashlib "[late_observation]", unfolded m]
  show ?thesis using a b c t by simp
qed

text \<open>
  The claim as stated fails: the settings resource at the top of the first iteration says
  \<open>getHashes = false\<close> and \<open>currentPathName = Inbox\<close>, and the iteration still lists
  \<open>Images\<close> and records a digest.
\<close>

theorem edited_settings_ignored_counterexample:
  "edited_settings ''isRunning'' = Some ''true'' \<and> edited_settings ''getHashes'' = Some ''false'' \<and>
   edited_settings ''currentPathName'' = Some ''Inbox'' \<and>
   fst (program sample_hashlib [edit_observation] demo_world) = StillRunning \<and>
   config_ini (snd (program sample_hashlib [edit_observation] demo_world)) = Some (Settings edited_settings) \<and>
   getHashes (snd (program sample_hashlib [edit_observation] demo_world)) \<and>
   currentPath (snd (program sample_hashlib [edit_observation] demo_world)) = ''Images'' \<and>
   map_of (files (snd (program sample_hashlib [edit_observation] demo_world))) ''Images/foo bar.png'' = None \<and>
   map fst (hashStore (snd (program sample_hashlib [edit_observation] demo_world))) = [''foo | bar.png'']"
  by (simp add: start_defs loop_defs demo_state_def eval_defs)

theorem only_running_flag_is_reloaded_witness:
  "fst plain_observation = Some (Settings default_settings) \<and>
   default_settings ''isRunning'' = Some ''true'' \<and>
   fst edit_observation = Some (Settings edited_settings) \<and>
   edited_settings ''isRunning'' = Some ''true'' \<and>
   edited_settings ''getHashes'' = Some ''false'' \<and>
   snd edit_observation = snd plain_observation \<and>
   getHashes (snd (run_loop sample_hashlib [plain_observation] demo_state)) = getHashes demo_state \<and>
   fst (cycle sample_hashlib (observe edit_observation demo_state)) =
     fst (cycle sample_hashlib (observe plain_observation demo_state)) \<and>
   hashStore (snd (cycle sample_hashlib (observe edit_observation demo_state))) =
     hashStore (snd (cycle sample_hashlib (observe plain_observation demo_state)))"
proof -
  have a: "fst plain_observation = Some (Settings default_settings)"
    by (simp add: plain_observation_def)
  have b: "default_settings ''isRunning'' = Some ''true''" by (simp add: default_settings_def)
  have c: "fst edit_observation = Some (Settings edited_settings)" by (simp add: edit_observation_def)
  have d: "edited_settings ''isRunning'' = Some ''true''"
    by (simp add: edited_settings_def default_settings_def)
  have e: "snd edit_observation = snd plain_observation"
    by (simp add: edit_observation_def plain_observation_def)
  have g: "edited_settings ''getHashes'' = Some ''false''"
    by (simp add: edited_settings_def)
  note t = only_running_flag_is_reloaded [OF a b c d e, of sample_hashlib demo_state "[]"]
  from t have t1: "getHashes (snd (run_loop sample_hashlib [plain_observation] demo_state)) =
      getHashes demo_state" by blast
  from t have t2: "cycle sample_hashlib (observe edit_observation demo_state) =
      (fst (cycle sample_hashlib (observe plain_observation demo_state)),
       (snd (cycle sample_hashlib (observe plain_observation demo_state)))
         \<lparr>parser := parser demo_state ++ edited_settings, config_ini := fst edit_observation\<rparr>)"
    by blast
  show ?thesis using a b c d e g t1 by (simp add: t2)
qed

theorem not_running_at_start_only_bootstraps_witness:
  "config_ini stopped_world = Some (Settings stop_settings) \<and>
   stop_settings ''isRunning'' = Some ''false'' \<and> ''false'' \<noteq> ''true'' \<and>
   fst (program sample_hashlib [late_observation] stopped_world) = Stopped \<and>
   path (snd (program sample_hashlib [late_observation] stopped_world)) = [] \<and>
   dirs (snd (program sample_hashlib [late_observation] stopped_world)) = [] \<and>
   files (snd (program sample_hashlib [late_observation] stopped_world)) = files stopped_world \<and>
   filePaths_json (snd (program sample_hashlib [late_observation] stopped_world)) = Some [''empty'']"
proof -
  have a: "config_ini stopped_world = Some (Settings stop_settings)"
    by (simp add: stopped_world_def)
  have b: "stop_settings ''isRunning'' = Some ''false''" by (simp add: stop_settings_def)
  have c: "''false'' \<noteq> ''true''" by simp
  have d: "dirs stopped_world = []" "filePaths_json stopped_world = None"
    by (simp_all add: stopped_world_def)
  have e: "fst (program sample_hashlib [late_observation] stopped_world) = Stopped"
    by (simp add: start_defs loop_defs demo_state_def)
  note t = not_running_at_start_only_bootstraps [OF a b c, of sample_hashlib "[late_observation]"]
  show ?thesis using a b e t by (simp add: d)
qed

end
